theory Spec2Isabelle
  imports Complex_Main "HOL-Library.Char_ord" "HOL-Library.List_Lexorder" "HOL-Library.Sublist"
begin

section \<open>Tabular data: the part of pandas that validator.py uses\<close>

text \<open>
  \<^verbatim>\<open>validator.py\<close> works on a pandas \<^verbatim>\<open>DataFrame\<close> obtained from \<^verbatim>\<open>pd.read_csv\<close>.
  A column of such a frame is a typed array: either numeric (\<^verbatim>\<open>int64\<close>/\<^verbatim>\<open>float64\<close>, a
  missing cell being NaN) or \<^verbatim>\<open>object\<close> (Python strings, a missing cell being NaN).
  Finite numbers are modelled by their exact rational value, text by its UTF-8 bytes
  (byte-wise lexicographic order is code point order), and a missing cell by \<open>None\<close>.
  Columns of other kinds (booleans, infinities, mixed objects) are outside the model.
\<close>

datatype series = Float64 "rat option list" | Object "string option list"

datatype cell = NaN | Num rat | Str string

record dataframe =
  cols :: "(string \<times> series) list"
  index_len :: nat

datatype exn =
    KeyError string
  | AttributeError string
  | FileNotFoundError string
  | OtherError string

type_synonym check_result = "bool \<times> string"


fun series_len :: "series \<Rightarrow> nat" where
  "series_len (Float64 vs) = length vs"
| "series_len (Object vs) = length vs"

fun series_cells :: "series \<Rightarrow> cell list" where
  "series_cells (Float64 vs) = map (case_option NaN Num) vs"
| "series_cells (Object vs) = map (case_option NaN Str) vs"

text \<open>\<^verbatim>\<open>df.columns\<close>, \<^verbatim>\<open>len(df)\<close>, \<^verbatim>\<open>df.empty\<close> and \<^verbatim>\<open>df[column]\<close> (which raises
  \<^verbatim>\<open>KeyError\<close> on a name that is not a column).\<close>

definition columns :: "dataframe \<Rightarrow> string list" where
  "columns df = map fst (cols df)"

definition len_df :: "dataframe \<Rightarrow> nat" where
  "len_df df = index_len df"

definition df_empty :: "dataframe \<Rightarrow> bool" where
  "df_empty df = (cols df = [] \<or> index_len df = 0)"

definition getitem :: "dataframe \<Rightarrow> string \<Rightarrow> exn + series" where
  "getitem df column =
     (case map_of (cols df) column of
        None \<Rightarrow> Inl (KeyError column)
      | Some s \<Rightarrow> Inr s)"

text \<open>A frame is well formed when its column names are distinct and every column has one
  cell per row; \<^verbatim>\<open>read_csv\<close> returns such a frame with at least one column (a file
  without columns is a parse error).\<close>

definition wf_dataframe :: "dataframe \<Rightarrow> bool" where
  "wf_dataframe df =
     (distinct (columns df) \<and> list_all (\<lambda>(n, s). series_len s = index_len df) (cols df))"

definition loadable :: "dataframe \<Rightarrow> bool" where
  "loadable df = (wf_dataframe df \<and> cols df \<noteq> [])"

text \<open>Row \<open>i\<close> of the frame, and all rows in index order.\<close>

definition row :: "dataframe \<Rightarrow> nat \<Rightarrow> cell list" where
  "row df i = map (\<lambda>(n, s). series_cells s ! i) (cols df)"

definition rows :: "dataframe \<Rightarrow> cell list list" where
  "rows df = map (row df) [0..<index_len df]"

subsection \<open>Python strings and formatting\<close>

definition check_mark :: string where
  "check_mark = [CHR 0xE2, CHR 0x9C, CHR 0x93]"

definition cross_mark :: string where
  "cross_mark = [CHR 0xE2, CHR 0x9C, CHR 0x97]"

definition quote :: string where
  "quote = [CHR 0x27]"

definition newline :: string where
  "newline = [CHR 0x0A]"

definition digit_char :: "nat \<Rightarrow> char" where
  "digit_char d = char_of (48 + d)"

fun str_nat :: "nat \<Rightarrow> string" where
  "str_nat n = (if n < 10 then [digit_char n] else str_nat (n div 10) @ [digit_char (n mod 10)])"

declare str_nat.simps [simp del]

definition str_int :: "int \<Rightarrow> string" where
  "str_int i = (if i < 0 then CHR ''-'' # str_nat (nat (- i)) else str_nat (nat i))"

text \<open>\<^verbatim>\<open>str.upper\<close>, which the report applies to the names of the checks: ASCII letters
  are mapped to upper case.\<close>

definition upper_char :: "char \<Rightarrow> char" where
  "upper_char c =
     (let n = (of_char c :: nat) in if 97 \<le> n \<and> n \<le> 122 then char_of (n - 32) else c)"

definition upper :: "string \<Rightarrow> string" where
  "upper s = map upper_char s"

fun join :: "string \<Rightarrow> string list \<Rightarrow> string" where
  "join sep [] = []"
| "join sep [x] = x"
| "join sep (x # y # ys) = x @ sep @ join sep (y # ys)"

subsection \<open>Series operations\<close>

text \<open>\<^verbatim>\<open>Series.str\<close>: the accessor is refused on a numeric column
  (\<^verbatim>\<open>AttributeError: Can only use .str accessor with string values!\<close>);
  \<^verbatim>\<open>.str.lower()\<close> applies Python's \<^verbatim>\<open>str.lower\<close> to every string and keeps NaN.
  Python's \<^verbatim>\<open>str.lower\<close> follows the Unicode case mapping; it is a parameter \<open>lower\<close> of
  the model, of which nothing is assumed.\<close>

fun str_lower :: "(string \<Rightarrow> string) \<Rightarrow> series \<Rightarrow> exn + series" where
  "str_lower lower (Float64 vs) =
     Inl (AttributeError ''Can only use .str accessor with string values!'')"
| "str_lower lower (Object vs) = Inr (Object (map (map_option lower) vs))"

text \<open>Element-wise \<^verbatim>\<open>!=\<close> of two columns: a pair with a NaN on either side compares
  unequal, also NaN with NaN.\<close>

fun ne_cell :: "cell \<Rightarrow> cell \<Rightarrow> bool" where
  "ne_cell NaN _ = True"
| "ne_cell _ NaN = True"
| "ne_cell x y = (x \<noteq> y)"

definition series_ne :: "series \<Rightarrow> series \<Rightarrow> bool list" where
  "series_ne a b = map (\<lambda>(x, y). ne_cell x y) (zip (series_cells a) (series_cells b))"

text \<open>\<^verbatim>\<open>df[mask]\<close>: the rows whose mask entry is true.\<close>

definition select :: "bool list \<Rightarrow> 'a list \<Rightarrow> 'a list" where
  "select keep xs = map snd (filter fst (zip keep xs))"

fun series_select :: "bool list \<Rightarrow> series \<Rightarrow> series" where
  "series_select keep (Float64 vs) = Float64 (select keep vs)"
| "series_select keep (Object vs) = Object (select keep vs)"

definition boolean_index :: "dataframe \<Rightarrow> bool list \<Rightarrow> dataframe" where
  "boolean_index df keep =
     \<lparr>cols = map (\<lambda>(n, s). (n, series_select keep s)) (cols df),
      index_len = length (filter id keep)\<rparr>"

text \<open>\<^verbatim>\<open>Series.isna().sum()\<close>.\<close>

definition isna :: "series \<Rightarrow> bool list" where
  "isna s = map (\<lambda>c. c = NaN) (series_cells s)"

definition bool_sum :: "bool list \<Rightarrow> nat" where
  "bool_sum bs = length (filter id bs)"

text \<open>\<^verbatim>\<open>Series.sort_values(ascending=...)\<close>: the values that are not NaN in the requested
  order, then the NaN cells (\<^verbatim>\<open>na_position='last'\<close>).\<close>

definition sort_cells :: "bool \<Rightarrow> ('a::linorder) option list \<Rightarrow> 'a option list" where
  "sort_cells ascending vs =
     (let non_nans = sort (List.map_filter (\<lambda>v. v) vs);
          nans = filter (\<lambda>v. v = None) vs
      in map Some (if ascending then non_nans else rev non_nans) @ nans)"

fun sort_values :: "series \<Rightarrow> bool \<Rightarrow> series" where
  "sort_values (Float64 vs) ascending = Float64 (sort_cells ascending vs)"
| "sort_values (Object vs) ascending = Object (sort_cells ascending vs)"

text \<open>\<^verbatim>\<open>reset_index(drop=True)\<close> renumbers the index and keeps the values; the model has
  positions only. \<^verbatim>\<open>Series.equals\<close> holds for two columns of the same type with the same
  cells at the same positions, NaN matching NaN.\<close>

definition reset_index :: "series \<Rightarrow> series" where
  "reset_index s = s"

definition series_equals :: "series \<Rightarrow> series \<Rightarrow> bool" where
  "series_equals a b = (a = b)"

text \<open>\<^verbatim>\<open>DataFrame.duplicated()\<close> (\<^verbatim>\<open>keep='first'\<close>): an empty frame gives an empty
  result; otherwise a row is marked when an earlier row has the same cells in all
  columns, NaN counting as equal to NaN.\<close>

fun dup_marks :: "'a list \<Rightarrow> 'a list \<Rightarrow> bool list" where
  "dup_marks seen [] = []"
| "dup_marks seen (r # rs) = (r \<in> set seen) # dup_marks (r # seen) rs"

definition duplicated :: "dataframe \<Rightarrow> bool list" where
  "duplicated df = (if df_empty df then [] else dup_marks [] (rows df))"

section \<open>The checks of validator.py\<close>

definition not_found_in_dataset :: "string \<Rightarrow> string" where
  "not_found_in_dataset column = ''Column '' @ quote @ column @ quote @ '' not found in dataset''"

definition validate_text_case ::
  "(string \<Rightarrow> string) \<Rightarrow> dataframe \<Rightarrow> string \<Rightarrow> exn + check_result" where
  "validate_text_case lower df column =
     (if column \<notin> set (columns df) then Inr (False, not_found_in_dataset column)
      else case getitem df column of Inl e \<Rightarrow> Inl e | Inr s \<Rightarrow>
        (case str_lower lower s of Inl e \<Rightarrow> Inl e | Inr lowered \<Rightarrow>
          (case getitem df column of Inl e \<Rightarrow> Inl e | Inr s' \<Rightarrow>
            (let non_lowercase = boolean_index df (series_ne lowered s')
             in if len_df non_lowercase > 0
                then Inr (False, ''Found '' @ str_nat (len_df non_lowercase)
                            @ '' rows with non-lowercase '' @ column)
                else Inr (True, check_mark @ '' All '' @ column @ '' values are lowercase'')))))"

fun no_nulls_loop ::
  "dataframe \<Rightarrow> string list \<Rightarrow> string list \<times> bool \<Rightarrow> exn + (string list \<times> bool)" where
  "no_nulls_loop df [] acc = Inr acc"
| "no_nulls_loop df (col # rest) (results, all_valid) =
     (if col \<notin> set (columns df)
      then no_nulls_loop df rest (results @ [''Column '' @ quote @ col @ quote @ '' not found''], False)
      else case getitem df col of Inl e \<Rightarrow> Inl e | Inr s \<Rightarrow>
        (let null_count = bool_sum (isna s)
         in if null_count > 0
            then no_nulls_loop df rest
                   (results @ [cross_mark @ '' '' @ col @ '': '' @ str_nat null_count
                                 @ '' NULL values found''], False)
            else no_nulls_loop df rest
                   (results @ [check_mark @ '' '' @ col @ '': No NULL values''], all_valid)))"

definition validate_no_nulls :: "dataframe \<Rightarrow> string list \<Rightarrow> exn + check_result" where
  "validate_no_nulls df columns_arg =
     (case no_nulls_loop df columns_arg ([], True) of
        Inl e \<Rightarrow> Inl e
      | Inr (results, all_valid) \<Rightarrow> Inr (all_valid, join newline results))"

definition validate_no_duplicates :: "dataframe \<Rightarrow> exn + check_result" where
  "validate_no_duplicates df =
     (let duplicates = duplicated df;
          duplicate_count = bool_sum duplicates
      in if duplicate_count > 0
         then Inr (False, cross_mark @ '' Found '' @ str_nat duplicate_count @ '' duplicate rows'')
         else Inr (True, check_mark @ '' No duplicate rows (total: '' @ str_nat (len_df df)
                           @ '' rows)''))"

definition validate_sorted :: "dataframe \<Rightarrow> string \<Rightarrow> bool \<Rightarrow> exn + check_result" where
  "validate_sorted df column ascending =
     (if column \<notin> set (columns df) then Inr (False, not_found_in_dataset column)
      else case getitem df column of Inl e \<Rightarrow> Inl e | Inr s \<Rightarrow>
        (let sorted_values = reset_index (sort_values s ascending)
         in case getitem df column of Inl e \<Rightarrow> Inl e | Inr s' \<Rightarrow>
           (let actual_values = reset_index s'
            in if series_equals sorted_values actual_values
               then (let direction = (if ascending then ''ascending'' else ''descending'')
                     in Inr (True, check_mark @ '' Data is sorted by '' @ column
                                     @ '' ('' @ direction @ '')''))
               else Inr (False, cross_mark @ '' Data is NOT sorted by '' @ column))))"

definition validate_row_count :: "dataframe \<Rightarrow> int \<Rightarrow> int \<Rightarrow> exn + check_result" where
  "validate_row_count df expected_min expected_max =
     (let actual = int (len_df df)
      in if expected_min \<le> actual \<and> actual \<le> expected_max
         then Inr (True, check_mark @ '' Row count: '' @ str_int actual @ '' (expected ''
                           @ str_int expected_min @ ''-'' @ str_int expected_max @ '')'')
         else Inr (False, cross_mark @ '' Row count: '' @ str_int actual @ '' (expected ''
                            @ str_int expected_min @ ''-'' @ str_int expected_max @ '')''))"

text \<open>The failure message of the schema check formats two Python sets with the built-in
  \<^verbatim>\<open>repr\<close>; the order in which a set lists its elements depends on string hashing, so
  the formatter is a parameter \<open>set_repr\<close> of the model.\<close>

definition expected_columns :: "string set" where
  "expected_columns =
     {''id'', ''name'', ''email'', ''age'', ''salary'', ''department'', ''status''}"

definition validate_schema :: "(string set \<Rightarrow> string) \<Rightarrow> dataframe \<Rightarrow> exn + check_result" where
  "validate_schema set_repr df =
     (let actual_columns = set (columns df)
      in if expected_columns = actual_columns
         then Inr (True, check_mark @ '' Schema matches: '' @ str_nat (card actual_columns)
                           @ '' columns'')
         else (let missing = expected_columns - actual_columns;
                   extra = actual_columns - expected_columns;
                   msg = cross_mark @ '' Schema mismatch:'';
                   msg = (if missing \<noteq> {} then msg @ newline @ ''  Missing: '' @ set_repr missing
                          else msg);
                   msg = (if extra \<noteq> {} then msg @ newline @ ''  Extra: '' @ set_repr extra
                          else msg)
               in Inr (False, msg)))"

section \<open>The aggregator and the entry point\<close>

text \<open>The report is a dictionary in insertion order: an association list. Building it
  evaluates the six checks in order; an exception raised by one of them leaves
  \<^verbatim>\<open>run_all_validations\<close>.\<close>

type_synonym report = "(string \<times> check_result) list"

definition run_all_validations ::
  "(string set \<Rightarrow> string) \<Rightarrow> (string \<Rightarrow> string) \<Rightarrow> dataframe \<Rightarrow> exn + report" where
  "run_all_validations set_repr lower df =
     (case validate_schema set_repr df of Inl e \<Rightarrow> Inl e | Inr r1 \<Rightarrow>
     (case validate_row_count df 24 25 of Inl e \<Rightarrow> Inl e | Inr r2 \<Rightarrow>
     (case validate_text_case lower df ''status'' of Inl e \<Rightarrow> Inl e | Inr r3 \<Rightarrow>
     (case validate_no_nulls df [''age'', ''salary''] of Inl e \<Rightarrow> Inl e | Inr r4 \<Rightarrow>
     (case validate_no_duplicates df of Inl e \<Rightarrow> Inl e | Inr r5 \<Rightarrow>
     (case validate_sorted df ''name'' True of Inl e \<Rightarrow> Inl e | Inr r6 \<Rightarrow>
        Inr [(''schema'', r1), (''row_count'', r2), (''text_case'', r3),
             (''no_nulls'', r4), (''no_duplicates'', r5), (''sorted'', r6)]))))))"

text \<open>Standard output is the list of the strings given to \<^verbatim>\<open>print\<close>, one entry per
  call.\<close>

definition rule60 :: string where
  "rule60 = replicate 60 (CHR ''='')"

fun report_loop :: "report \<Rightarrow> string list \<times> bool \<Rightarrow> string list \<times> bool" where
  "report_loop [] acc = acc"
| "report_loop ((check_name, (passed, message)) # rest) (out, all_passed) =
     (let status = (if passed then ''PASS'' else ''FAIL'');
          out = out @ [''['' @ status @ ''] '' @ upper check_name,
                       ''       '' @ message @ newline]
      in report_loop rest (out, if \<not> passed then False else all_passed))"

definition print_report :: "report \<Rightarrow> string list \<times> bool" where
  "print_report results =
     (let out = [newline @ rule60, ''RHOMBUS AI DATA VALIDATION REPORT'', rule60 @ newline];
          (out, all_passed) = report_loop results (out, True);
          out = out @ [rule60];
          out = out @ [if all_passed
                       then ''OVERALL: '' @ check_mark @ '' ALL VALIDATIONS PASSED''
                       else ''OVERALL: '' @ cross_mark @ '' SOME VALIDATIONS FAILED''];
          out = out @ [rule60 @ newline]
      in (out, all_passed))"




section \<open>Notions used to state the properties\<close>

text \<open>A check passes when it returns a result whose flag is true, and fails when it
  returns one whose flag is false; a check that raises does neither.\<close>

definition passes :: "exn + check_result \<Rightarrow> bool" where
  "passes r = (case r of Inl e \<Rightarrow> False | Inr (passed, message) \<Rightarrow> passed)"

definition fails :: "exn + check_result \<Rightarrow> bool" where
  "fails r = (case r of Inl e \<Rightarrow> False | Inr (passed, message) \<Rightarrow> \<not> passed)"

text \<open>A frame with one more column, and with a column removed.\<close>

definition add_column :: "dataframe \<Rightarrow> string \<Rightarrow> series \<Rightarrow> dataframe" where
  "add_column df name s = df\<lparr>cols := cols df @ [(name, s)]\<rparr>"

definition drop_column :: "dataframe \<Rightarrow> string \<Rightarrow> dataframe" where
  "drop_column df name = df\<lparr>cols := filter (\<lambda>(n, s). n \<noteq> name) (cols df)\<rparr>"

text \<open>What \<^verbatim>\<open>str.lower\<close> returns on text made of ASCII characters, for the examples: the
  letters A to Z are mapped to a to z.\<close>

definition ascii_lower_char :: "char \<Rightarrow> char" where
  "ascii_lower_char c =
     (let n = (of_char c :: nat) in if 65 \<le> n \<and> n \<le> 90 then char_of (n + 32) else c)"

definition ascii_lower :: "string \<Rightarrow> string" where
  "ascii_lower s = map ascii_lower_char s"

text \<open>One rendering that \<^verbatim>\<open>repr\<close> may give for a set of plain names: the quoted
  names in sorted order.\<close>

definition sorted_set_repr :: "string set \<Rightarrow> string" where
  "sorted_set_repr S =
     ''{'' @ join '', '' (map (\<lambda>n. quote @ n @ quote) (sorted_list_of_set S)) @ ''}''"

text \<open>The number of missing cells of a column, and the line that the null check is
  to report for one named column.\<close>

definition null_count :: "dataframe \<Rightarrow> string \<Rightarrow> nat" where
  "null_count df col =
     (case map_of (cols df) col of
        None \<Rightarrow> 0
      | Some s \<Rightarrow> length (filter (\<lambda>c. c = NaN) (series_cells s)))"

definition no_nulls_line :: "dataframe \<Rightarrow> string \<Rightarrow> string" where
  "no_nulls_line df col =
     (if col \<notin> set (columns df) then ''Column '' @ quote @ col @ quote @ '' not found''
      else if null_count df col > 0
      then cross_mark @ '' '' @ col @ '': '' @ str_nat (null_count df col) @ '' NULL values found''
      else check_mark @ '' '' @ col @ '': No NULL values'')"

text \<open>The order in which \<^verbatim>\<open>sort_values\<close> arranges the cells of a column: the order of
  the values, with a missing cell after every value. A column is non-decreasing when
  every cell is below or equal to every later cell in that order.\<close>

fun na_last_le :: "('a::linorder) option \<Rightarrow> 'a option \<Rightarrow> bool" where
  "na_last_le _ None = True"
| "na_last_le None (Some b) = False"
| "na_last_le (Some a) (Some b) = (a \<le> b)"

fun nondecreasing :: "series \<Rightarrow> bool" where
  "nondecreasing (Float64 vs) = sorted_wrt na_last_le vs"
| "nondecreasing (Object vs) = sorted_wrt na_last_le vs"

text \<open>A cell of a text column that is not its own lower case: a missing cell, or a string
  that differs from its lower-case form.\<close>

definition not_lowercase :: "(string \<Rightarrow> string) \<Rightarrow> string option \<Rightarrow> bool" where
  "not_lowercase lower v = (case v of None \<Rightarrow> True | Some s \<Rightarrow> lower s \<noteq> s)"




section \<open>Auxiliary facts\<close>

lemma getitem_present:
  assumes "c \<in> set (columns df)"
  obtains s where "map_of (cols df) c = Some s" and "getitem df c = Inr s"
proof -
  from assms have "c \<in> fst ` set (cols df)" by (simp add: columns_def)
  then obtain s where "map_of (cols df) c = Some s"
    by (metis domD dom_map_of_conv_image_fst)
  then show ?thesis using that by (simp add: getitem_def)
qed

lemma map_of_present: "map_of (cols df) c = Some s \<Longrightarrow> c \<in> set (columns df)"
  unfolding columns_def by (metis domI dom_map_of_conv_image_fst set_map)

lemma bool_sum_isna: "bool_sum (isna s) = length (filter (\<lambda>c. c = NaN) (series_cells s))"
  by (simp add: bool_sum_def isna_def filter_map o_def)

lemma no_nulls_loop_eq:
  "no_nulls_loop df cs (results, ok) =
     Inr (results @ map (no_nulls_line df) cs,
          ok \<and> (\<forall>c \<in> set cs. c \<in> set (columns df) \<and> null_count df c = 0))"
proof (induction cs arbitrary: results ok)
  case Nil
  then show ?case by simp
next
  case (Cons c cs)
  show ?case
  proof (cases "c \<in> set (columns df)")
    case False
    then show ?thesis by (simp add: Cons.IH no_nulls_line_def)
  next
    case True
    then obtain s where s: "map_of (cols df) c = Some s" "getitem df c = Inr s"
      by (rule getitem_present)
    have nc: "bool_sum (isna s) = null_count df c"
      by (simp add: bool_sum_isna null_count_def s)
    show ?thesis
      using True by (simp add: s nc Let_def Cons.IH no_nulls_line_def)
  qed
qed

lemma columns_add_column: "columns (add_column df c s) = columns df @ [c]"
  by (simp add: columns_def add_column_def)

lemma set_columns_drop_column: "set (columns (drop_column df c)) = set (columns df) - {c}"
  by (auto simp: columns_def drop_column_def)

lemma passes_validate_schema:
  "passes (validate_schema R df) \<longleftrightarrow> set (columns df) = expected_columns"
  by (auto simp: passes_def validate_schema_def Let_def)

lemma fails_validate_schema:
  "fails (validate_schema R df) \<longleftrightarrow> set (columns df) \<noteq> expected_columns"
  by (auto simp: fails_def validate_schema_def Let_def)

lemma dup_marks_count:
  "bool_sum (dup_marks seen rs) + card (set rs - set seen) = length rs"
proof (induction rs arbitrary: seen)
  case Nil
  then show ?case by (simp add: bool_sum_def)
next
  case (Cons r rs)
  have ih: "bool_sum (dup_marks (r # seen) rs) + card (set rs - set (r # seen)) = length rs"
    by (rule Cons.IH)
  show ?case
  proof (cases "r \<in> set seen")
    case True
    then have "set (r # rs) - set seen = set rs - set (r # seen)" by auto
    then have "card (set (r # rs) - set seen) = card (set rs - set (r # seen))" by (rule arg_cong)
    moreover have "bool_sum (dup_marks seen (r # rs)) = Suc (bool_sum (dup_marks (r # seen) rs))"
      using True by (simp add: bool_sum_def)
    ultimately show ?thesis using ih by simp
  next
    case False
    then have "set (r # rs) - set seen = insert r (set rs - set (r # seen))" by auto
    then have "card (set (r # rs) - set seen) = card (insert r (set rs - set (r # seen)))"
      by (rule arg_cong)
    also have "\<dots> = Suc (card (set rs - set (r # seen)))"
      by (rule card_insert_disjoint) auto
    finally have c: "card (set (r # rs) - set seen) = Suc (card (set rs - set (r # seen)))" .
    have "bool_sum (dup_marks seen (r # rs)) = bool_sum (dup_marks (r # seen) rs)"
      using False by (simp add: bool_sum_def)
    then show ?thesis using ih c by simp
  qed
qed

lemma dup_marks_total: "bool_sum (dup_marks [] rs) = length rs - card (set rs)"
  using dup_marks_count [of "[]" rs] by simp

lemma dup_marks_none: "bool_sum (dup_marks [] rs) = 0 \<longleftrightarrow> distinct rs"
proof -
  have le: "card (set rs) \<le> length rs" by (rule card_length)
  have "bool_sum (dup_marks [] rs) = 0 \<longleftrightarrow> card (set rs) = length rs"
    unfolding dup_marks_total using le by linarith
  also have "\<dots> \<longleftrightarrow> distinct rs"
    using card_distinct [of rs] distinct_card [of rs] by blast
  finally show ?thesis .
qed
lemma dup_marks_nth:
  "i < length rs \<Longrightarrow>
     dup_marks seen rs ! i = (rs ! i \<in> set seen \<or> (\<exists>j < i. rs ! j = rs ! i))"
proof (induction rs arbitrary: seen i)
  case Nil
  then show ?case by simp
next
  case (Cons r rs)
  show ?case
  proof (cases i)
    case 0
    then show ?thesis by simp
  next
    case (Suc k)
    with Cons.prems have k: "k < length rs" by simp
    have "dup_marks (r # seen) rs ! k = (rs ! k \<in> set (r # seen) \<or> (\<exists>j < k. rs ! j = rs ! k))"
      using Cons.IH [OF k] .
    also have "\<dots> = ((r # rs) ! i \<in> set seen \<or> (\<exists>j < i. (r # rs) ! j = (r # rs) ! i))"
      unfolding Suc
      by (auto simp: less_Suc_eq_0_disj)
    finally show ?thesis by (simp add: Suc)
  qed
qed

lemma length_dup_marks: "length (dup_marks seen rs) = length rs"
  by (induction rs arbitrary: seen) auto

lemma distinct_rows:
  "distinct (rows df) \<longleftrightarrow> \<not> (\<exists>i j. i < j \<and> j < index_len df \<and> row df i = row df j)"
proof -
  have "distinct (rows df) \<longleftrightarrow>
          (\<forall>i j. i < j \<and> j < length (rows df) \<longrightarrow> rows df ! i \<noteq> rows df ! j)"
  proof
    assume "distinct (rows df)"
    then show "\<forall>i j. i < j \<and> j < length (rows df) \<longrightarrow> rows df ! i \<noteq> rows df ! j"
      by (simp add: nth_eq_iff_index_eq)
  next
    assume h: "\<forall>i j. i < j \<and> j < length (rows df) \<longrightarrow> rows df ! i \<noteq> rows df ! j"
    have "rows df ! i \<noteq> rows df ! j"
      if "i < length (rows df)" "j < length (rows df)" "i \<noteq> j" for i j
    proof (cases "i < j")
      case True
      then show ?thesis using h that by blast
    next
      case False
      then have "j < i" using that by simp
      then show ?thesis using h that by metis
    qed
    then show "distinct (rows df)" by (simp add: distinct_conv_nth)
  qed
  also have "\<dots> \<longleftrightarrow> \<not> (\<exists>i j. i < j \<and> j < index_len df \<and> row df i = row df j)"
    by (auto simp: rows_def)
  finally show ?thesis .
qed

lemma duplicated_nonempty: "cols df \<noteq> [] \<Longrightarrow> duplicated df = dup_marks [] (rows df)"
  by (simp add: duplicated_def df_empty_def rows_def)

lemma length_rows: "length (rows df) = index_len df"
  by (simp add: rows_def)

lemma rows_nth: "i < index_len df \<Longrightarrow> rows df ! i = row df i"
  by (simp add: rows_def)

lemma duplicate_count_zero:
  assumes "cols df \<noteq> []"
  shows "bool_sum (duplicated df) = 0 \<longleftrightarrow>
           \<not> (\<exists>i j. i < j \<and> j < index_len df \<and> row df i = row df j)"
  using assms by (simp add: duplicated_nonempty dup_marks_none distinct_rows)

lemma na_last_le_None: "na_last_le None y \<longleftrightarrow> y = None"
  by (cases y) auto

lemma all_None_parts:
  assumes "\<forall>y \<in> set vs. y = None"
  shows "List.map_filter (\<lambda>v. v) vs = []" and "filter (\<lambda>v. v = None) vs = vs"
  using assms by (induction vs) (auto simp: map_filter_simps)

lemma set_map_filter_id: "set (List.map_filter (\<lambda>v. v) vs) = {x. Some x \<in> set vs}"
  by (induction vs) (auto simp: map_filter_simps split: option.splits)

lemma nondecreasing_parts:
  "sorted_wrt na_last_le vs \<Longrightarrow>
     map Some (List.map_filter (\<lambda>v. v) vs) @ filter (\<lambda>v. v = None) vs = vs
     \<and> sorted (List.map_filter (\<lambda>v. v) vs)"
proof (induction vs)
  case Nil
  then show ?case by (simp add: map_filter_simps)
next
  case (Cons v vs)
  then have later: "\<forall>y \<in> set vs. na_last_le v y" and rest: "sorted_wrt na_last_le vs"
    by simp_all
  show ?case
  proof (cases v)
    case None
    with later have "\<forall>y \<in> set vs. y = None" by (simp add: na_last_le_None)
    then show ?thesis using None by (simp add: all_None_parts map_filter_simps)
  next
    case (Some a)
    have "a \<le> b" if "b \<in> set (List.map_filter (\<lambda>v. v) vs)" for b
    proof -
      from that have "Some b \<in> set vs" by (simp add: set_map_filter_id)
      with later Some show ?thesis by force
    qed
    then show ?thesis using Some Cons.IH [OF rest] by (simp add: map_filter_simps)
  qed
qed

lemma sorted_wrt_values_then_nans:
  assumes "sorted xs" and "\<forall>n \<in> set ns. n = None"
  shows "sorted_wrt na_last_le (map Some xs @ ns)"
proof -
  have a: "sorted_wrt na_last_le (map Some xs)"
    using assms(1) by (simp add: sorted_wrt_map)
  have b: "sorted_wrt na_last_le ns"
    using assms(2) by (induction ns) auto
  have c: "\<forall>x \<in> set (map Some xs). \<forall>n \<in> set ns. na_last_le x n"
    using assms(2) by auto
  show ?thesis using a b c by (simp add: sorted_wrt_append)
qed

lemma sort_cells_fixpoint: "sort_cells True vs = vs \<longleftrightarrow> sorted_wrt na_last_le vs"
proof
  assume eq: "sort_cells True vs = vs"
  have "sorted_wrt na_last_le
          (map Some (sort (List.map_filter (\<lambda>v. v) vs)) @ filter (\<lambda>v. v = None) vs)"
    by (rule sorted_wrt_values_then_nans) auto
  then have "sorted_wrt na_last_le (sort_cells True vs)"
    by (simp add: sort_cells_def)
  then show "sorted_wrt na_last_le vs" using eq by simp
next
  assume "sorted_wrt na_last_le vs"
  then have p: "map Some (List.map_filter (\<lambda>v. v) vs) @ filter (\<lambda>v. v = None) vs = vs"
    and s: "sorted (List.map_filter (\<lambda>v. v) vs)"
    using nondecreasing_parts by blast+
  from s have "sort (List.map_filter (\<lambda>v. v) vs) = List.map_filter (\<lambda>v. v) vs"
    by (rule sorted_sort_id)
  then show "sort_cells True vs = vs" using p by (simp add: sort_cells_def)
qed

lemma sort_values_fixpoint: "sort_values s True = s \<longleftrightarrow> nondecreasing s"
  by (cases s) (simp_all add: sort_cells_fixpoint)

lemma validate_sorted_present:
  assumes "map_of (cols df) c = Some s"
  shows "validate_sorted df c asc =
           (if sort_values s asc = s
            then Inr (True, check_mark @ '' Data is sorted by '' @ c @ '' (''
                        @ (if asc then ''ascending'' else ''descending'') @ '')'')
            else Inr (False, cross_mark @ '' Data is NOT sorted by '' @ c))"
  using assms map_of_present [OF assms]
  by (simp add: validate_sorted_def getitem_def Let_def reset_index_def series_equals_def)

lemma series_ne_lowered:
  "series_ne (Object (map (map_option L) vs)) (Object vs) = map (not_lowercase L) vs"
  by (induction vs) (auto simp: series_ne_def not_lowercase_def split: option.splits)

lemma len_boolean_index: "len_df (boolean_index df keep) = length (filter id keep)"
  by (simp add: len_df_def boolean_index_def)

lemma filter_id_map: "filter id (map P xs) = map P (filter P xs)"
  by (induction xs) auto

lemma validate_text_case_object:
  assumes "map_of (cols df) c = Some (Object vs)"
  shows "validate_text_case L df c =
           (if 0 < length (filter (not_lowercase L) vs)
            then Inr (False, ''Found '' @ str_nat (length (filter (not_lowercase L) vs))
                        @ '' rows with non-lowercase '' @ c)
            else Inr (True, check_mark @ '' All '' @ c @ '' values are lowercase''))"
  using assms map_of_present [OF assms]
  by (simp add: validate_text_case_def getitem_def Let_def series_ne_lowered
        len_boolean_index filter_id_map)

lemma validate_text_case_numeric:
  assumes "map_of (cols df) c = Some (Float64 vs)"
  shows "validate_text_case L df c
           = Inl (AttributeError ''Can only use .str accessor with string values!'')"
  using assms map_of_present [OF assms]
  by (simp add: validate_text_case_def getitem_def)

lemma validate_text_case_absent:
  assumes "c \<notin> set (columns df)"
  shows "validate_text_case L df c
           = Inr (False, ''Column '' @ quote @ c @ quote @ '' not found in dataset'')"
  using assms by (simp add: validate_text_case_def not_found_in_dataset_def)

lemma length_filter_mono:
  assumes "\<And>x. P x \<Longrightarrow> Q x"
  shows "length (filter P xs) \<le> length (filter Q xs)"
  using assms by (induction xs) auto

lemma validate_sorted_total: "\<exists>r. validate_sorted df c asc = Inr r"
proof (cases "map_of (cols df) c")
  case None
  then have "c \<notin> set (columns df)"
    by (simp add: columns_def map_of_eq_None_iff)
  then show ?thesis by (auto simp: validate_sorted_def)
next
  case (Some s)
  then show ?thesis by (auto simp: validate_sorted_present)
qed

lemma validate_schema_total: "\<exists>r. validate_schema R df = Inr r"
  by (auto simp: validate_schema_def Let_def)

lemma validate_row_count_total: "\<exists>r. validate_row_count df mn mx = Inr r"
  by (auto simp: validate_row_count_def Let_def)

lemma validate_no_nulls_total: "\<exists>r. validate_no_nulls df cs = Inr r"
  by (simp add: validate_no_nulls_def no_nulls_loop_eq)

lemma validate_no_duplicates_total: "\<exists>r. validate_no_duplicates df = Inr r"
  by (auto simp: validate_no_duplicates_def Let_def)

lemma report_loop_flag:
  "snd (report_loop rs (out, ok)) = (ok \<and> list_all (\<lambda>(name, r). fst r) rs)"
proof (induction rs arbitrary: out ok)
  case Nil
  then show ?case by simp
next
  case (Cons x rs)
  obtain name passed message where x: "x = (name, (passed, message))"
    by (metis surj_pair)
  show ?case unfolding x by (auto simp: Let_def Cons.IH)
qed

lemma print_report_flag: "snd (print_report rs) = list_all (\<lambda>(name, r). fst r) rs"
proof -
  obtain out ok where l:
    "report_loop rs ([newline @ rule60, ''RHOMBUS AI DATA VALIDATION REPORT'', rule60 @ newline],
       True) = (out, ok)"
    by (metis surj_pair)
  have "ok = list_all (\<lambda>(name, r). fst r) rs"
    using report_loop_flag
            [of rs "[newline @ rule60, ''RHOMBUS AI DATA VALIDATION REPORT'', rule60 @ newline]"
               True] l
    by simp
  then show ?thesis by (simp add: print_report_def Let_def l)
qed

lemma run_all_validations_returns:
  assumes "validate_text_case L df ''status'' = Inr r3"
  shows "\<exists>r1 r2 r4 r5 r6.
           validate_schema R df = Inr r1
           \<and> validate_row_count df 24 25 = Inr r2
           \<and> validate_no_nulls df [''age'', ''salary''] = Inr r4
           \<and> validate_no_duplicates df = Inr r5
           \<and> validate_sorted df ''name'' True = Inr r6
           \<and> run_all_validations R L df
               = Inr [(''schema'', r1), (''row_count'', r2), (''text_case'', r3),
                      (''no_nulls'', r4), (''no_duplicates'', r5), (''sorted'', r6)]"
proof -
  obtain r1 where r1: "validate_schema R df = Inr r1"
    using validate_schema_total by blast
  obtain r2 where r2: "validate_row_count df 24 25 = Inr r2"
    using validate_row_count_total by blast
  obtain r4 where r4: "validate_no_nulls df [''age'', ''salary''] = Inr r4"
    using validate_no_nulls_total by blast
  obtain r5 where r5: "validate_no_duplicates df = Inr r5"
    using validate_no_duplicates_total by blast
  obtain r6 where r6: "validate_sorted df ''name'' True = Inr r6"
    using validate_sorted_total by blast
  have "run_all_validations R L df
               = Inr [(''schema'', r1), (''row_count'', r2), (''text_case'', r3),
                      (''no_nulls'', r4), (''no_duplicates'', r5), (''sorted'', r6)]"
    by (simp add: run_all_validations_def r1 r2 assms r4 r5 r6)
  then show ?thesis using r1 r2 r4 r5 r6 by blast
qed

lemma run_all_validations_raises:
  assumes "validate_text_case L df ''status'' = Inl e"
  shows "run_all_validations R L df = Inl e"
proof -
  obtain r1 where r1: "validate_schema R df = Inr r1"
    using validate_schema_total by blast
  obtain r2 where r2: "validate_row_count df 24 25 = Inr r2"
    using validate_row_count_total by blast
  show ?thesis by (simp add: run_all_validations_def r1 r2 assms)
qed






section \<open>Row count (claim C7)\<close>

text \<open>Claim C7: for every Dataset and all integers \<open>mn\<close>, \<open>mx\<close> the row-count check passes
  exactly when \<open>mn \<le> |D| \<le> mx\<close> and fails otherwise; with \<open>mn \<le> mx\<close> the row
  counts \<open>mn\<close> and \<open>mx\<close> pass, and the row counts \<open>mn - 1\<close> and \<open>mx + 1\<close>
  fail.\<close>

theorem validate_row_count_range:
  "passes (validate_row_count df mn mx) = (mn \<le> int (len_df df) \<and> int (len_df df) \<le> mx)
   \<and> fails (validate_row_count df mn mx) = (\<not> (mn \<le> int (len_df df) \<and> int (len_df df) \<le> mx))
   \<and> (mn \<le> mx \<and> int (len_df df) = mn \<longrightarrow> passes (validate_row_count df mn mx))
   \<and> (mn \<le> mx \<and> int (len_df df) = mx \<longrightarrow> passes (validate_row_count df mn mx))
   \<and> (int (len_df df) = mn - 1 \<longrightarrow> fails (validate_row_count df mn mx))
   \<and> (int (len_df df) = mx + 1 \<longrightarrow> fails (validate_row_count df mn mx))"
  by (simp add: passes_def fails_def validate_row_count_def Let_def)

theorem validate_row_count_range_witness:
  "passes (validate_row_count \<lparr>cols = [], index_len = 24\<rparr> 24 25)
   \<and> passes (validate_row_count \<lparr>cols = [], index_len = 25\<rparr> 24 25)
   \<and> fails (validate_row_count \<lparr>cols = [], index_len = 23\<rparr> 24 25)
   \<and> fails (validate_row_count \<lparr>cols = [], index_len = 26\<rparr> 24 25)"
  using validate_row_count_range [of "\<lparr>cols = [], index_len = 24\<rparr>" 24 25]
        validate_row_count_range [of "\<lparr>cols = [], index_len = 25\<rparr>" 24 25]
        validate_row_count_range [of "\<lparr>cols = [], index_len = 23\<rparr>" 24 25]
        validate_row_count_range [of "\<lparr>cols = [], index_len = 26\<rparr>" 24 25]
  by (simp add: len_df_def)

section \<open>Schema (claim C3)\<close>

text \<open>Claim C3: the schema check passes exactly when the set of column names is the
  expected set of seven names, and fails otherwise. From a frame that passes, adding a
  column with any new name or removing any column gives a frame that fails; a frame
  that lacks exactly one expected column, or has exactly one unexpected column, fails,
  and adding that column, or removing it, gives a frame that passes. On failure
  the message contains the rendering of the set of missing names when there are any, and
  the rendering of the set of unexpected names when there are any.\<close>

theorem validate_schema_exact:
  "passes (validate_schema R df) = (set (columns df) = expected_columns)
   \<and> fails (validate_schema R df) = (set (columns df) \<noteq> expected_columns)
   \<and> (passes (validate_schema R df) \<and> c \<notin> set (columns df)
        \<longrightarrow> fails (validate_schema R (add_column df c s)))
   \<and> (passes (validate_schema R df) \<and> c \<in> set (columns df)
        \<longrightarrow> fails (validate_schema R (drop_column df c)))
   \<and> (c \<in> expected_columns \<and> set (columns df) = expected_columns - {c}
        \<longrightarrow> fails (validate_schema R df) \<and> passes (validate_schema R (add_column df c s)))
   \<and> (c \<notin> expected_columns \<and> set (columns df) = insert c expected_columns
        \<longrightarrow> fails (validate_schema R df) \<and> passes (validate_schema R (drop_column df c)))
   \<and> (set (columns df) \<noteq> expected_columns \<longrightarrow>
        (\<exists>msg. validate_schema R df = Inr (False, msg)
           \<and> (expected_columns - set (columns df) \<noteq> {}
                \<longrightarrow> sublist (''Missing: '' @ R (expected_columns - set (columns df))) msg)
           \<and> (set (columns df) - expected_columns \<noteq> {}
                \<longrightarrow> sublist (''Extra: '' @ R (set (columns df) - expected_columns)) msg)))"
proof -
  have add: "fails (validate_schema R (add_column df c s))"
    if "passes (validate_schema R df)" "c \<notin> set (columns df)"
    using that unfolding passes_validate_schema fails_validate_schema columns_add_column
    by auto
  have drop: "fails (validate_schema R (drop_column df c))"
    if "passes (validate_schema R df)" "c \<in> set (columns df)"
    using that unfolding passes_validate_schema fails_validate_schema set_columns_drop_column
    by auto
  have add': "fails (validate_schema R df) \<and> passes (validate_schema R (add_column df c s))"
    if "c \<in> expected_columns" "set (columns df) = expected_columns - {c}"
    using that unfolding passes_validate_schema fails_validate_schema columns_add_column
    by auto
  have drop': "fails (validate_schema R df) \<and> passes (validate_schema R (drop_column df c))"
    if "c \<notin> expected_columns" "set (columns df) = insert c expected_columns"
    using that unfolding passes_validate_schema fails_validate_schema set_columns_drop_column
    by auto
  have msg: "\<exists>msg. validate_schema R df = Inr (False, msg)
           \<and> (expected_columns - set (columns df) \<noteq> {}
                \<longrightarrow> sublist (''Missing: '' @ R (expected_columns - set (columns df))) msg)
           \<and> (set (columns df) - expected_columns \<noteq> {}
                \<longrightarrow> sublist (''Extra: '' @ R (set (columns df) - expected_columns)) msg)"
    if ne: "set (columns df) \<noteq> expected_columns"
  proof -
    define missing where "missing = expected_columns - set (columns df)"
    define extra where "extra = set (columns df) - expected_columns"
    define m where "m = ''Missing: '' @ R missing"
    define e where "e = ''Extra: '' @ R extra"
    define h where "h = cross_mark @ '' Schema mismatch:''"
    define msg1 where "msg1 = (if missing \<noteq> {} then h @ newline @ ''  '' @ m else h)"
    define msg2 where "msg2 = (if extra \<noteq> {} then msg1 @ newline @ ''  '' @ e else msg1)"
    have res: "validate_schema R df = Inr (False, msg2)"
      using ne
      by (simp add: validate_schema_def Let_def eq_commute msg2_def msg1_def h_def m_def e_def
            missing_def extra_def)
    have m1: "sublist m msg1" if "missing \<noteq> {}"
    proof -
      have "msg1 = (h @ newline @ ''  '') @ m @ []" using that by (simp add: msg1_def)
      then show ?thesis unfolding sublist_def by blast
    qed
    have m2: "sublist m msg2" if mne: "missing \<noteq> {}"
    proof -
      obtain ps ss where d: "msg1 = ps @ m @ ss"
        using m1[OF mne] unfolding sublist_def by blast
      have "msg2 = ps @ m @ (if extra \<noteq> {} then ss @ newline @ ''  '' @ e else ss)"
        by (simp add: msg2_def d)
      then show ?thesis unfolding sublist_def by blast
    qed
    have e2: "sublist e msg2" if "extra \<noteq> {}"
    proof -
      have "msg2 = (msg1 @ newline @ ''  '') @ e @ []" using that by (simp add: msg2_def)
      then show ?thesis unfolding sublist_def by blast
    qed
    show ?thesis
      using res m2 e2 unfolding m_def e_def missing_def extra_def by blast
  qed
  show ?thesis
    using passes_validate_schema [of R df] fails_validate_schema [of R df] add drop add' drop' msg
    by (intro conjI impI) (simp_all only:, blast+)
qed

theorem validate_schema_exact_witness:
  "passes (validate_schema sorted_set_repr
      \<lparr>cols = [(''id'', Object []), (''name'', Object []), (''email'', Object []),
               (''age'', Object []), (''salary'', Object []), (''department'', Object []),
               (''status'', Object [])], index_len = 0\<rparr>)
   \<and> fails (validate_schema sorted_set_repr (add_column
      \<lparr>cols = [(''id'', Object []), (''name'', Object []), (''email'', Object []),
               (''age'', Object []), (''salary'', Object []), (''department'', Object []),
               (''status'', Object [])], index_len = 0\<rparr> ''notes'' (Object [])))
   \<and> fails (validate_schema sorted_set_repr (drop_column
      \<lparr>cols = [(''id'', Object []), (''name'', Object []), (''email'', Object []),
               (''age'', Object []), (''salary'', Object []), (''department'', Object []),
               (''status'', Object [])], index_len = 0\<rparr> ''age''))
   \<and> (\<exists>msg. validate_schema sorted_set_repr
              \<lparr>cols = [(''id'', Object []), (''zip'', Object [])], index_len = 0\<rparr>
            = Inr (False, msg)
          \<and> sublist (''Missing: '' @ sorted_set_repr
               {''name'', ''email'', ''age'', ''salary'', ''department'', ''status''}) msg
          \<and> sublist (''Extra: '' @ sorted_set_repr {''zip''}) msg)"
proof -
  let ?D = "\<lparr>cols = [(''id'', Object []), (''name'', Object []), (''email'', Object []),
               (''age'', Object []), (''salary'', Object []), (''department'', Object []),
               (''status'', Object [])], index_len = 0\<rparr>"
  let ?E = "\<lparr>cols = [(''id'', Object []), (''zip'', Object [])], index_len = 0\<rparr>"
  have D: "set (columns ?D) = expected_columns"
    by (simp add: columns_def expected_columns_def)
  have miss: "expected_columns - set (columns ?E)
                = {''name'', ''email'', ''age'', ''salary'', ''department'', ''status''}"
    by (auto simp: columns_def expected_columns_def)
  have extra: "set (columns ?E) - expected_columns = {''zip''}"
    by (auto simp: columns_def expected_columns_def)
  have ne: "set (columns ?E) \<noteq> expected_columns"
    using extra by blast
  have nn: "''notes'' \<notin> set (columns ?D)" and ag: "''age'' \<in> set (columns ?D)"
    by (simp_all add: columns_def)
  have a: "passes (validate_schema sorted_set_repr ?D)"
    using validate_schema_exact [of sorted_set_repr ?D "''notes''" "Object []"] D by blast
  have b: "fails (validate_schema sorted_set_repr (add_column ?D ''notes'' (Object [])))"
    using validate_schema_exact [of sorted_set_repr ?D "''notes''" "Object []"] a nn by blast
  have c: "fails (validate_schema sorted_set_repr (drop_column ?D ''age''))"
    using validate_schema_exact [of sorted_set_repr ?D "''age''" "Object []"] a ag by blast
  have mne: "expected_columns - set (columns ?E) \<noteq> {}" unfolding miss by simp
  have ene: "set (columns ?E) - expected_columns \<noteq> {}" unfolding extra by simp
  obtain msg where r: "validate_schema sorted_set_repr ?E = Inr (False, msg)"
    and m: "sublist (''Missing: '' @ sorted_set_repr (expected_columns - set (columns ?E))) msg"
    and e: "sublist (''Extra: '' @ sorted_set_repr (set (columns ?E) - expected_columns)) msg"
    using validate_schema_exact [of sorted_set_repr ?E "''age''" "Object []"] ne mne ene
    by blast
  have d: "\<exists>msg. validate_schema sorted_set_repr ?E = Inr (False, msg)
          \<and> sublist (''Missing: '' @ sorted_set_repr
               {''name'', ''email'', ''age'', ''salary'', ''department'', ''status''}) msg
          \<and> sublist (''Extra: '' @ sorted_set_repr {''zip''}) msg"
    using r m e unfolding miss extra by blast
  show ?thesis using a b c d by blast
qed

section \<open>Null absence (claim C5)\<close>

text \<open>Claim C5: for every Dataset and every list of column names the null check returns a
  result; its flag is true exactly when every named column is a column of the Dataset
  and has no missing cell, and its message is the lines of the named columns, one line
  per name in the order given, joined by newlines. The line of a column says that the
  column was not found, or how many missing cells it has, or that it has none, whatever
  the other columns are.\<close>

theorem validate_no_nulls_all_columns:
  "validate_no_nulls df cs =
     Inr ((\<forall>c \<in> set cs. c \<in> set (columns df) \<and> null_count df c = 0),
          join newline (map (no_nulls_line df) cs))"
  by (simp add: validate_no_nulls_def no_nulls_loop_eq)

theorem validate_no_nulls_all_columns_witness:
  "validate_no_nulls
     \<lparr>cols = [(''age'', Float64 [Some 31, None, None]), (''name'', Object [Some ''Ann'', None, Some ''Bob''])],
      index_len = 3\<rparr> [''age'', ''salary'', ''name'']
   = Inr (False, cross_mark @ '' age: 2 NULL values found'' @ newline
                 @ ''Column '' @ quote @ ''salary'' @ quote @ '' not found'' @ newline
                 @ cross_mark @ '' name: 1 NULL values found'')
   \<and> validate_no_nulls
     \<lparr>cols = [(''age'', Float64 [Some 31, Some 40]), (''salary'', Float64 [Some 10, Some 20])],
      index_len = 2\<rparr> [''age'', ''salary'']
   = Inr (True, check_mark @ '' age: No NULL values'' @ newline
                 @ check_mark @ '' salary: No NULL values'')"
proof -
  let ?A = "\<lparr>cols = [(''age'', Float64 [Some 31, None, None]),
                      (''name'', Object [Some ''Ann'', None, Some ''Bob''])], index_len = 3\<rparr>"
  let ?B = "\<lparr>cols = [(''age'', Float64 [Some 31, Some 40]),
                      (''salary'', Float64 [Some 10, Some 20])], index_len = 2\<rparr>"
  have n2: "str_nat (Suc (Suc 0)) = ''2''" and n1: "str_nat (Suc 0) = ''1''"
    by code_simp+
  have a: "validate_no_nulls ?A [''age'', ''salary'', ''name'']
           = Inr (False, cross_mark @ '' age: 2 NULL values found'' @ newline
                 @ ''Column '' @ quote @ ''salary'' @ quote @ '' not found'' @ newline
                 @ cross_mark @ '' name: 1 NULL values found'')"
    using validate_no_nulls_all_columns [of ?A "[''age'', ''salary'', ''name'']"]
    by (simp add: columns_def null_count_def no_nulls_line_def n1 n2)
  have b: "validate_no_nulls ?B [''age'', ''salary'']
           = Inr (True, check_mark @ '' age: No NULL values'' @ newline
                 @ check_mark @ '' salary: No NULL values'')"
    using validate_no_nulls_all_columns [of ?B "[''age'', ''salary'']"]
    by (simp add: columns_def null_count_def no_nulls_line_def)
  show ?thesis using a b by blast
qed

section \<open>Duplicate rows (claims C6 and C10)\<close>

text \<open>Claim C6: for every Dataset (a frame with at least one column, as the loader returns)
  the duplicate check passes exactly when no two rows at different positions have the
  same cells in all columns, and fails otherwise; when it fails, its message gives the
  number of rows that \<^verbatim>\<open>duplicated()\<close> marked. A frame without columns is not a Dataset:
  pandas marks nothing there.\<close>

theorem validate_no_duplicates_full_rows:
  assumes "cols df \<noteq> []"
  shows "passes (validate_no_duplicates df)
           = (\<not> (\<exists>i j. i < j \<and> j < index_len df \<and> row df i = row df j))
       \<and> fails (validate_no_duplicates df)
           = (\<exists>i j. i < j \<and> j < index_len df \<and> row df i = row df j)
       \<and> (fails (validate_no_duplicates df) \<longrightarrow>
            validate_no_duplicates df
              = Inr (False, cross_mark @ '' Found '' @ str_nat (bool_sum (duplicated df))
                              @ '' duplicate rows''))"
proof -
  have z: "bool_sum (duplicated df) = 0 \<longleftrightarrow>
             \<not> (\<exists>i j. i < j \<and> j < index_len df \<and> row df i = row df j)"
    using assms by (rule duplicate_count_zero)
  have p: "passes (validate_no_duplicates df) = (bool_sum (duplicated df) = 0)"
    by (simp add: passes_def validate_no_duplicates_def Let_def)
  have f: "fails (validate_no_duplicates df) = (bool_sum (duplicated df) \<noteq> 0)"
    by (simp add: fails_def validate_no_duplicates_def Let_def)
  have m: "fails (validate_no_duplicates df) \<longrightarrow>
            validate_no_duplicates df
              = Inr (False, cross_mark @ '' Found '' @ str_nat (bool_sum (duplicated df))
                              @ '' duplicate rows'')"
    by (simp add: fails_def validate_no_duplicates_def Let_def)
  show ?thesis using z p f m by blast
qed

theorem validate_no_duplicates_full_rows_witness:
  "cols \<lparr>cols = [(''id'', Float64 [Some 1, Some 2, Some 1]),
                  (''name'', Object [Some ''Ann'', Some ''Bob'', Some ''Ann''])],
          index_len = 3\<rparr> \<noteq> []
   \<and> validate_no_duplicates
        \<lparr>cols = [(''id'', Float64 [Some 1, Some 2, Some 1]),
                  (''name'', Object [Some ''Ann'', Some ''Bob'', Some ''Ann''])],
          index_len = 3\<rparr>
      = Inr (False, cross_mark @ '' Found 1 duplicate rows'')
   \<and> (\<exists>i j. i < j \<and> j < 3
          \<and> row \<lparr>cols = [(''id'', Float64 [Some 1, Some 2, Some 1]),
                  (''name'', Object [Some ''Ann'', Some ''Bob'', Some ''Ann''])],
                  index_len = 3\<rparr> i
            = row \<lparr>cols = [(''id'', Float64 [Some 1, Some 2, Some 1]),
                  (''name'', Object [Some ''Ann'', Some ''Bob'', Some ''Ann''])],
                  index_len = 3\<rparr> j)
   \<and> passes (validate_no_duplicates
        \<lparr>cols = [(''id'', Float64 [Some 1, Some 1]),
                  (''name'', Object [Some ''Ann'', Some ''Bob''])], index_len = 2\<rparr>)"
proof -
  let ?D = "\<lparr>cols = [(''id'', Float64 [Some 1, Some 2, Some 1]),
                  (''name'', Object [Some ''Ann'', Some ''Bob'', Some ''Ann''])],
          index_len = 3\<rparr>"
  let ?E = "\<lparr>cols = [(''id'', Float64 [Some 1, Some 1]),
                  (''name'', Object [Some ''Ann'', Some ''Bob''])], index_len = 2\<rparr>"
  have ev: "validate_no_duplicates ?D = Inr (False, cross_mark @ '' Found 1 duplicate rows'')"
    by code_simp
  then have fl: "fails (validate_no_duplicates ?D)"
    by (simp add: fails_def)
  have ne: "cols ?D \<noteq> []" by simp
  have ex: "\<exists>i j. i < j \<and> j < 3 \<and> row ?D i = row ?D j"
    using validate_no_duplicates_full_rows [OF ne] fl by simp
  have ne': "cols ?E \<noteq> []" by simp
  have "\<not> (\<exists>i j. i < j \<and> j < index_len ?E \<and> row ?E i = row ?E j)"
    by (auto simp: row_def less_Suc_eq numeral_2_eq_2)
  then have ps: "passes (validate_no_duplicates ?E)"
    using validate_no_duplicates_full_rows [OF ne'] by blast
  show ?thesis using ne ev ex ps by blast
qed

text \<open>Claim C10: for every Dataset the number of rows marked as duplicates is the number
  of rows minus the number of distinct rows: a row is marked exactly when an earlier row
  has the same cells, so the first row of a group of equal rows is not counted. The
  check fails with that number in its message when it is positive and passes otherwise;
  in particular it passes on a Dataset without rows.\<close>

theorem duplicate_count_total_minus_distinct:
  "(cols df \<noteq> [] \<longrightarrow> bool_sum (duplicated df) = index_len df - card (set (rows df)))
   \<and> (cols df \<noteq> [] \<longrightarrow>
        (\<forall>i < index_len df. duplicated df ! i = (\<exists>j < i. row df j = row df i)))
   \<and> validate_no_duplicates df
        = (if 0 < bool_sum (duplicated df)
           then Inr (False, cross_mark @ '' Found '' @ str_nat (bool_sum (duplicated df))
                              @ '' duplicate rows'')
           else Inr (True, check_mark @ '' No duplicate rows (total: ''
                              @ str_nat (index_len df) @ '' rows)''))
   \<and> (index_len df = 0 \<longrightarrow> passes (validate_no_duplicates df))"
proof -
  have a: "bool_sum (duplicated df) = index_len df - card (set (rows df))" if "cols df \<noteq> []"
    using that by (simp add: duplicated_nonempty dup_marks_total length_rows)
  have b: "duplicated df ! i = (\<exists>j < i. row df j = row df i)"
    if ne: "cols df \<noteq> []" and i: "i < index_len df" for i
  proof -
    have "duplicated df ! i = (\<exists>j < i. rows df ! j = rows df ! i)"
      using dup_marks_nth [of i "rows df" "[]"] i
      by (simp add: duplicated_nonempty [OF ne] length_rows)
    also have "\<dots> = (\<exists>j < i. row df j = row df i)"
      using i by (auto simp: rows_nth)
    finally show ?thesis .
  qed
  have c: "validate_no_duplicates df
        = (if 0 < bool_sum (duplicated df)
           then Inr (False, cross_mark @ '' Found '' @ str_nat (bool_sum (duplicated df))
                              @ '' duplicate rows'')
           else Inr (True, check_mark @ '' No duplicate rows (total: ''
                              @ str_nat (index_len df) @ '' rows)''))"
    by (simp add: validate_no_duplicates_def Let_def len_df_def)
  have d: "passes (validate_no_duplicates df)" if "index_len df = 0"
    using that
    by (simp add: passes_def validate_no_duplicates_def Let_def duplicated_def df_empty_def
          bool_sum_def)
  show ?thesis using a b c d by blast
qed

theorem duplicate_count_total_minus_distinct_witness:
  "bool_sum (duplicated
      \<lparr>cols = [(''id'', Float64 [Some 1, Some 2, Some 1, Some 1]),
                (''name'', Object [None, Some ''Bob'', None, None])], index_len = 4\<rparr>) = 2
   \<and> 4 - card (set (rows
      \<lparr>cols = [(''id'', Float64 [Some 1, Some 2, Some 1, Some 1]),
                (''name'', Object [None, Some ''Bob'', None, None])], index_len = 4\<rparr>)) = 2
   \<and> passes (validate_no_duplicates \<lparr>cols = [(''id'', Object [])], index_len = 0\<rparr>)"
proof -
  let ?D = "\<lparr>cols = [(''id'', Float64 [Some 1, Some 2, Some 1, Some 1]),
                (''name'', Object [None, Some ''Bob'', None, None])], index_len = 4\<rparr>"
  let ?Z = "\<lparr>cols = [(''id'', Object [])], index_len = 0\<rparr>"
  have ev: "bool_sum (duplicated ?D) = 2"
    by code_simp
  have "bool_sum (duplicated ?D) = index_len ?D - card (set (rows ?D))"
    using duplicate_count_total_minus_distinct [of ?D] by simp
  then have cnt: "4 - card (set (rows ?D)) = 2"
    using ev by simp
  have "index_len ?Z = 0" by simp
  then have z: "passes (validate_no_duplicates ?Z)"
    using duplicate_count_total_minus_distinct [of ?Z] by blast
  show ?thesis using ev cnt z by blast
qed

section \<open>Sort order (claim C4)\<close>

text \<open>Claim C4: for every Dataset and every column present in it, the sort check with
  \<^verbatim>\<open>ascending=True\<close> passes exactly when the cells of the column, read in row order, are
  non-decreasing in the order used for sorting (values in their order, missing cells
  last), and fails otherwise; equal neighbours are accepted, so rows with equal keys may
  come in any order. For a column that is absent the check fails with the message that
  the column was not found.\<close>

theorem validate_sorted_ascending:
  "(map_of (cols df) c = Some s \<longrightarrow>
      passes (validate_sorted df c True) = nondecreasing s
      \<and> fails (validate_sorted df c True) = (\<not> nondecreasing s))
   \<and> (c \<notin> set (columns df) \<longrightarrow>
        validate_sorted df c asc
          = Inr (False, ''Column '' @ quote @ c @ quote @ '' not found in dataset''))"
proof -
  have a: "passes (validate_sorted df c True) = nondecreasing s
           \<and> fails (validate_sorted df c True) = (\<not> nondecreasing s)"
    if "map_of (cols df) c = Some s"
    using sort_values_fixpoint [of s]
    by (simp add: validate_sorted_present [OF that] passes_def fails_def)
  have b: "validate_sorted df c asc
          = Inr (False, ''Column '' @ quote @ c @ quote @ '' not found in dataset'')"
    if "c \<notin> set (columns df)"
    using that by (simp add: validate_sorted_def not_found_in_dataset_def)
  show ?thesis using a b by blast
qed

theorem validate_sorted_ascending_witness:
  "passes (validate_sorted
      \<lparr>cols = [(''id'', Float64 [Some 7, Some 3, Some 5]),
                (''name'', Object [Some ''Ann'', Some ''Ann'', Some ''Bob''])],
        index_len = 3\<rparr> ''name'' True)
   \<and> passes (validate_sorted
      \<lparr>cols = [(''id'', Float64 [Some 3, Some 7, Some 5]),
                (''name'', Object [Some ''Ann'', Some ''Ann'', Some ''Bob''])],
        index_len = 3\<rparr> ''name'' True)
   \<and> fails (validate_sorted
      \<lparr>cols = [(''id'', Float64 [Some 7, Some 3, Some 5]),
                (''name'', Object [Some ''Ann'', Some ''Ann'', Some ''Bob''])],
        index_len = 3\<rparr> ''id'' True)
   \<and> validate_sorted
      \<lparr>cols = [(''id'', Float64 [Some 7, Some 3, Some 5]),
                (''name'', Object [Some ''Ann'', Some ''Ann'', Some ''Bob''])],
        index_len = 3\<rparr> ''email'' True
      = Inr (False, ''Column '' @ quote @ ''email'' @ quote @ '' not found in dataset'')"
proof -
  let ?D = "\<lparr>cols = [(''id'', Float64 [Some 7, Some 3, Some 5]),
                (''name'', Object [Some ''Ann'', Some ''Ann'', Some ''Bob''])],
        index_len = 3\<rparr>"
  let ?E = "\<lparr>cols = [(''id'', Float64 [Some 3, Some 7, Some 5]),
                (''name'', Object [Some ''Ann'', Some ''Ann'', Some ''Bob''])],
        index_len = 3\<rparr>"
  have le: "''Ann'' \<le> ''Bob''" by code_simp
  have n: "nondecreasing (Object [Some ''Ann'', Some ''Ann'', Some ''Bob''])"
    using le by simp
  have i: "\<not> nondecreasing (Float64 [Some 7, Some 3, Some 5])"
    by simp
  have a: "passes (validate_sorted ?D ''name'' True)"
    using validate_sorted_ascending
            [of ?D "''name''" "Object [Some ''Ann'', Some ''Ann'', Some ''Bob'']" True] n
    by simp
  have b: "passes (validate_sorted ?E ''name'' True)"
    using validate_sorted_ascending
            [of ?E "''name''" "Object [Some ''Ann'', Some ''Ann'', Some ''Bob'']" True] n
    by simp
  have c: "fails (validate_sorted ?D ''id'' True)"
    using validate_sorted_ascending
            [of ?D "''id''" "Float64 [Some 7, Some 3, Some 5]" True] i
    by simp
  have d: "validate_sorted ?D ''email'' True
      = Inr (False, ''Column '' @ quote @ ''email'' @ quote @ '' not found in dataset'')"
    using validate_sorted_ascending [of ?D "''email''" "Object []" True]
    by (simp add: columns_def)
  show ?thesis using a b c d by blast
qed

section \<open>Text case (claims C9 and C2)\<close>

text \<open>Claim C9: for every Dataset whose target column is a text column with at least one
  missing cell, and whatever \<^verbatim>\<open>str.lower\<close> returns on the strings, the text-case check
  fails. The number in its message is the number of cells that are missing or differ
  from their lower-case form, so it is at least the number of missing cells, and the
  comparison that selects the reported rows is true at every row whose cell is
  missing.\<close>

theorem validate_text_case_null_fails:
  assumes "map_of (cols df) c = Some (Object vs)" and "None \<in> set vs"
  shows "validate_text_case L df c
           = Inr (False, ''Found '' @ str_nat (length (filter (not_lowercase L) vs))
                           @ '' rows with non-lowercase '' @ c)
       \<and> 0 < length (filter (\<lambda>v. v = None) vs)
       \<and> length (filter (\<lambda>v. v = None) vs) \<le> length (filter (not_lowercase L) vs)
       \<and> (\<forall>i < length vs. vs ! i = None \<longrightarrow>
             series_ne (Object (map (map_option L) vs)) (Object vs) ! i)"
proof -
  have pos: "0 < length (filter (\<lambda>v. v = None) vs)"
    using assms(2) by (simp add: length_greater_0_conv filter_empty_conv)
  have le: "length (filter (\<lambda>v. v = None) vs) \<le> length (filter (not_lowercase L) vs)"
    by (rule length_filter_mono) (simp add: not_lowercase_def)
  have res: "validate_text_case L df c
           = Inr (False, ''Found '' @ str_nat (length (filter (not_lowercase L) vs))
                           @ '' rows with non-lowercase '' @ c)"
  proof -
    from pos le have "0 < length (filter (not_lowercase L) vs)" by linarith
    then show ?thesis by (simp only: validate_text_case_object [OF assms(1)] if_True)
  qed
  have sel: "\<forall>i < length vs. vs ! i = None \<longrightarrow>
             series_ne (Object (map (map_option L) vs)) (Object vs) ! i"
    by (simp add: series_ne_lowered not_lowercase_def)
  show ?thesis using res pos le sel by blast
qed

theorem validate_text_case_null_fails_witness:
  "validate_text_case ascii_lower
     \<lparr>cols = [(''name'', Object [Some ''Ann'', Some ''Bob'', Some ''Cy'']),
               (''status'', Object [Some ''active'', None, Some ''Active''])],
       index_len = 3\<rparr> ''status''
   = Inr (False, ''Found 2 rows with non-lowercase status'')"
proof -
  let ?vs = "[Some ''active'', None, Some ''Active'']"
  let ?D = "\<lparr>cols = [(''name'', Object [Some ''Ann'', Some ''Bob'', Some ''Cy'']),
               (''status'', Object ?vs)], index_len = 3\<rparr>"
  have m: "map_of (cols ?D) ''status'' = Some (Object ?vs)" by simp
  have n: "None \<in> set ?vs" by simp
  have k: "str_nat (length (filter (not_lowercase ascii_lower) ?vs)) = ''2''" by code_simp
  have "validate_text_case ascii_lower ?D ''status''
          = Inr (False, ''Found '' @ str_nat (length (filter (not_lowercase ascii_lower) ?vs))
                          @ '' rows with non-lowercase '' @ ''status'')"
    using validate_text_case_null_fails [OF m n, of ascii_lower] by blast
  then show ?thesis unfolding k by simp
qed

text \<open>Claim C2, as amended: the schema, row-count, null, duplicate and sort checks return
  a result on every frame and never raise. The text-case check returns a result when
  its column is absent or is a text column, whatever cells are missing; when its column
  is present and numeric it raises \<^verbatim>\<open>AttributeError\<close> instead of returning a
  result.\<close>

theorem checks_total_except_text_case:
  "(\<exists>r. validate_schema R df = Inr r)
   \<and> (\<exists>r. validate_row_count df mn mx = Inr r)
   \<and> (\<exists>r. validate_no_nulls df cs = Inr r)
   \<and> (\<exists>r. validate_no_duplicates df = Inr r)
   \<and> (\<exists>r. validate_sorted df c asc = Inr r)
   \<and> (c \<notin> set (columns df) \<longrightarrow> (\<exists>r. validate_text_case L df c = Inr r))
   \<and> (\<forall>vs. map_of (cols df) c = Some (Object vs) \<longrightarrow> (\<exists>r. validate_text_case L df c = Inr r))
   \<and> (\<forall>vs. map_of (cols df) c = Some (Float64 vs) \<longrightarrow>
         validate_text_case L df c
           = Inl (AttributeError ''Can only use .str accessor with string values!''))"
proof -
  have a: "\<exists>r. validate_schema R df = Inr r"
    by (auto simp: validate_schema_def Let_def)
  have b: "\<exists>r. validate_row_count df mn mx = Inr r"
    by (auto simp: validate_row_count_def Let_def)
  have c: "\<exists>r. validate_no_nulls df cs = Inr r"
    by (simp add: validate_no_nulls_def no_nulls_loop_eq)
  have d: "\<exists>r. validate_no_duplicates df = Inr r"
    by (auto simp: validate_no_duplicates_def Let_def)
  have e: "\<exists>r. validate_sorted df c asc = Inr r"
    by (rule validate_sorted_total)
  have f: "\<exists>r. validate_text_case L df c = Inr r" if "c \<notin> set (columns df)"
    using that by (auto simp: validate_text_case_absent)
  have g: "\<exists>r. validate_text_case L df c = Inr r" if "map_of (cols df) c = Some (Object vs)" for vs
    using that by (auto simp: validate_text_case_object)
  have h: "validate_text_case L df c
           = Inl (AttributeError ''Can only use .str accessor with string values!'')"
    if "map_of (cols df) c = Some (Float64 vs)" for vs
    using that by (rule validate_text_case_numeric)
  show ?thesis using a b c d e f g h by blast
qed

theorem checks_total_except_text_case_witness:
  "(\<exists>r. validate_text_case ascii_lower
          \<lparr>cols = [(''status'', Object [Some ''active'', None])], index_len = 2\<rparr> ''status''
        = Inr r)
   \<and> (\<exists>r. validate_text_case ascii_lower
          \<lparr>cols = [(''status'', Object [Some ''active'', None])], index_len = 2\<rparr> ''state''
        = Inr r)
   \<and> validate_text_case ascii_lower
        \<lparr>cols = [(''status'', Float64 [Some 1, Some 0])], index_len = 2\<rparr> ''status''
      = Inl (AttributeError ''Can only use .str accessor with string values!'')"
proof -
  let ?S = "\<lparr>cols = [(''status'', Object [Some ''active'', None])], index_len = 2\<rparr>"
  let ?N = "\<lparr>cols = [(''status'', Float64 [Some 1, Some 0])], index_len = 2\<rparr>"
  have a: "\<exists>r. validate_text_case ascii_lower ?S ''status'' = Inr r"
    using checks_total_except_text_case [of sorted_set_repr ?S 0 0 "[]" "''status''" True ascii_lower]
    by simp
  have b: "\<exists>r. validate_text_case ascii_lower ?S ''state'' = Inr r"
    using checks_total_except_text_case [of sorted_set_repr ?S 0 0 "[]" "''state''" True ascii_lower]
    by (simp add: columns_def)
  have c: "validate_text_case ascii_lower ?N ''status''
      = Inl (AttributeError ''Can only use .str accessor with string values!'')"
    using checks_total_except_text_case [of sorted_set_repr ?N 0 0 "[]" "''status''" True ascii_lower]
    by simp
  show ?thesis using a b c by blast
qed

text \<open>A Dataset as \<^verbatim>\<open>read_csv\<close> returns it for a file whose \<^verbatim>\<open>status\<close> column holds the
  numbers 1 and 0: the text-case check raises on it and returns no result.\<close>

theorem validate_text_case_numeric_counterexample:
  "loadable \<lparr>cols = [(''status'', Float64 [Some 1, Some 0])], index_len = 2\<rparr>
   \<and> validate_text_case ascii_lower
        \<lparr>cols = [(''status'', Float64 [Some 1, Some 0])], index_len = 2\<rparr> ''status''
      = Inl (AttributeError ''Can only use .str accessor with string values!'')"
  by (simp add: loadable_def wf_dataframe_def columns_def validate_text_case_def getitem_def)

section \<open>The aggregator (claim C1)\<close>

text \<open>Claim C1, as amended: for every Dataset on which the text-case check of the
  \<^verbatim>\<open>status\<close> column returns a result, the aggregator runs all six checks and reports
  them in order, whatever their flags are, and the verdict of the report is the
  conjunction of the six flags. When the text-case check raises, the aggregator raises
  the same exception and builds no report. The verdict of any report is the conjunction
  of the flags of its entries.\<close>

theorem run_all_validations_complete:
  "(\<forall>r3. validate_text_case L df ''status'' = Inr r3 \<longrightarrow>
      (\<exists>r1 r2 r4 r5 r6.
           validate_schema R df = Inr r1
           \<and> validate_row_count df 24 25 = Inr r2
           \<and> validate_no_nulls df [''age'', ''salary''] = Inr r4
           \<and> validate_no_duplicates df = Inr r5
           \<and> validate_sorted df ''name'' True = Inr r6
           \<and> run_all_validations R L df
               = Inr [(''schema'', r1), (''row_count'', r2), (''text_case'', r3),
                      (''no_nulls'', r4), (''no_duplicates'', r5), (''sorted'', r6)]
           \<and> snd (print_report [(''schema'', r1), (''row_count'', r2), (''text_case'', r3),
                      (''no_nulls'', r4), (''no_duplicates'', r5), (''sorted'', r6)])
               = (fst r1 \<and> fst r2 \<and> fst r3 \<and> fst r4 \<and> fst r5 \<and> fst r6)))
   \<and> (\<forall>e. validate_text_case L df ''status'' = Inl e \<longrightarrow> run_all_validations R L df = Inl e)
   \<and> snd (print_report results) = list_all (\<lambda>(name, r). fst r) results"
proof -
  have a: "\<exists>r1 r2 r4 r5 r6.
           validate_schema R df = Inr r1
           \<and> validate_row_count df 24 25 = Inr r2
           \<and> validate_no_nulls df [''age'', ''salary''] = Inr r4
           \<and> validate_no_duplicates df = Inr r5
           \<and> validate_sorted df ''name'' True = Inr r6
           \<and> run_all_validations R L df
               = Inr [(''schema'', r1), (''row_count'', r2), (''text_case'', r3),
                      (''no_nulls'', r4), (''no_duplicates'', r5), (''sorted'', r6)]
           \<and> snd (print_report [(''schema'', r1), (''row_count'', r2), (''text_case'', r3),
                      (''no_nulls'', r4), (''no_duplicates'', r5), (''sorted'', r6)])
               = (fst r1 \<and> fst r2 \<and> fst r3 \<and> fst r4 \<and> fst r5 \<and> fst r6)"
    if h: "validate_text_case L df ''status'' = Inr r3" for r3
  proof -
    obtain r1 r2 r4 r5 r6 where
      c: "validate_schema R df = Inr r1" "validate_row_count df 24 25 = Inr r2"
         "validate_no_nulls df [''age'', ''salary''] = Inr r4"
         "validate_no_duplicates df = Inr r5" "validate_sorted df ''name'' True = Inr r6"
         "run_all_validations R L df
               = Inr [(''schema'', r1), (''row_count'', r2), (''text_case'', r3),
                      (''no_nulls'', r4), (''no_duplicates'', r5), (''sorted'', r6)]"
      using run_all_validations_returns [OF h, of R] by blast
    have v: "snd (print_report [(''schema'', r1), (''row_count'', r2), (''text_case'', r3),
                      (''no_nulls'', r4), (''no_duplicates'', r5), (''sorted'', r6)])
               = (fst r1 \<and> fst r2 \<and> fst r3 \<and> fst r4 \<and> fst r5 \<and> fst r6)"
      by (simp add: print_report_flag)
    show ?thesis using c v by blast
  qed
  have b: "run_all_validations R L df = Inl e" if "validate_text_case L df ''status'' = Inl e" for e
    using that by (rule run_all_validations_raises)
  have c: "snd (print_report results) = list_all (\<lambda>(name, r). fst r) results"
    by (rule print_report_flag)
  show ?thesis using a b c by blast
qed

theorem run_all_validations_complete_witness:
  "\<exists>r1 r2 r4 r5 r6.
     run_all_validations sorted_set_repr ascii_lower
       \<lparr>cols = [(''name'', Object [Some ''Bob'', Some ''Ann'']),
                 (''status'', Object [Some ''active'', Some ''Active''])], index_len = 2\<rparr>
     = Inr [(''schema'', r1), (''row_count'', r2),
            (''text_case'', (False, ''Found 1 rows with non-lowercase status'')),
            (''no_nulls'', r4), (''no_duplicates'', r5), (''sorted'', r6)]
     \<and> snd (print_report [(''schema'', r1), (''row_count'', r2),
            (''text_case'', (False, ''Found 1 rows with non-lowercase status'')),
            (''no_nulls'', r4), (''no_duplicates'', r5), (''sorted'', r6)]) = False"
proof -
  let ?D = "\<lparr>cols = [(''name'', Object [Some ''Bob'', Some ''Ann'']),
                 (''status'', Object [Some ''active'', Some ''Active''])], index_len = 2\<rparr>"
  have t: "validate_text_case ascii_lower ?D ''status''
             = Inr (False, ''Found 1 rows with non-lowercase status'')"
    by code_simp
  show ?thesis
    using run_all_validations_complete [of ascii_lower ?D sorted_set_repr "[]"] t by fastforce
qed

text \<open>A Dataset with the seven expected columns and a numeric \<^verbatim>\<open>status\<close> column: the
  aggregator raises at the third check, so the null, duplicate and sort checks do not run
  and there is no report.\<close>

theorem run_all_validations_numeric_status_counterexample:
  "run_all_validations sorted_set_repr ascii_lower
     \<lparr>cols = [(''id'', Float64 [Some 1, Some 2]),
               (''name'', Object [Some ''Ann'', Some ''Bob'']),
               (''email'', Object [Some ''a@x.org'', Some ''b@x.org'']),
               (''age'', Float64 [Some 30, None]),
               (''salary'', Float64 [Some 100, Some 200]),
               (''department'', Object [Some ''HR'', Some ''Sales'']),
               (''status'', Float64 [Some 1, Some 0])], index_len = 2\<rparr>
   = Inl (AttributeError ''Can only use .str accessor with string values!'')"
  by (rule run_all_validations_raises)
     (simp add: validate_text_case_def getitem_def columns_def)

section \<open>The entry point (claim C8)\<close>



end
